theory Spec2Isabelle
  imports Main "HOL-Library.Word" "HOL-Library.Sublist"
begin

section \<open>Data Races (Part I, Chapter 3, main.c)\<close>

text \<open>
  The program:
  \<^verbatim>\<open>
  int shared_data = 0;

  void* thread_function(void* arg) {
    shared_data++; // Unsafe write
    return NULL;
  }

  int main() {
    pthread_t t1, t2;
    pthread_create(&t1, NULL, thread_function, NULL);
    pthread_create(&t2, NULL, thread_function, NULL);
    pthread_join(t1, NULL);
    pthread_join(t2, NULL);
    printf("%d\n", shared_data); // Output is unpredictable
    return 0;
  }
  \<close>
  It is modelled as a transition system: \<open>main\<close> and the two threads each take one
  step at a time, every access to \<open>shared_data\<close> being a step of its own, and a
  schedule (a list of actors) picks who moves next. This is the interleaving reading of
  the race that the specification describes; C itself gives a racy program no meaning.
\<close>

subsection \<open>Data\<close>

text \<open>\<open>int\<close> is a 32-bit two's-complement integer, read by \<open>sint\<close>.\<close>

type_synonym c_int = "32 word"

datatype ptr = NULL | Addr nat

text \<open>The two \<open>pthread_t\<close> variables of \<open>main\<close>.\<close>

datatype handle = T1 | T2

text \<open>
  What a \<open>pthread_t\<close> variable designates: no thread (the variable was never set), or
  a thread running \<open>thread_function\<close> that is about to read \<open>shared_data\<close>, about to
  write it back from its temporary, about to return, or has returned.
\<close>

datatype thread = NoThread | AtLoad | AtStore c_int | AtReturn | Terminated ptr

text \<open>The statement \<open>main\<close> executes next; \<open>Print v\<close> holds the evaluated argument
  of \<open>printf\<close>, \<open>Exited rc\<close> the exit status of the process.\<close>

datatype main_pc =
  Create1 | Create2 | Join1 | Join2 | ReadCell | Print c_int | Return0 | Exited int

record state =
  shared_data :: c_int
  t1 :: thread
  t2 :: thread
  pc :: main_pc
  stdout :: string

definition init :: state where
  "init = \<lparr>shared_data = 0, t1 = NoThread, t2 = NoThread, pc = Create1, stdout = []\<rparr>"

fun thread_of :: "handle \<Rightarrow> state \<Rightarrow> thread" where
  "thread_of T1 s = t1 s"
| "thread_of T2 s = t2 s"

fun set_thread :: "handle \<Rightarrow> thread \<Rightarrow> state \<Rightarrow> state" where
  "set_thread T1 th s = s\<lparr>t1 := th\<rparr>"
| "set_thread T2 th s = s\<lparr>t2 := th\<rparr>"

fun other :: "handle \<Rightarrow> handle" where
  "other T1 = T2"
| "other T2 = T1"

definition exited :: "state \<Rightarrow> bool" where
  "exited s = (case pc s of Exited rc \<Rightarrow> True | _ \<Rightarrow> False)"

text \<open>What a step does, as seen from outside.\<close>

datatype event =
  Spawn handle | Join handle | Read | Emit | Return
| Load handle | Store handle | End handle

datatype actor = Main | Worker handle

subsection \<open>The host: threads and output\<close>

text \<open>
  \<open>pthread_create\<close>, \<open>pthread_join\<close> and \<open>printf\<close> belong to the host, not to the
  program. The host is a parameter: the codes its four calls return (0 is success).
\<close>

record host =
  create_rc :: "handle \<Rightarrow> int"
  join_rc :: "handle \<Rightarrow> int"

text \<open>
  Both calls of \<open>pthread_create\<close> pass \<open>thread_function\<close> as the start routine and
  \<open>NULL\<close> as its argument. A successful call sets the handle and starts a thread at
  the beginning of \<open>thread_function\<close>; a failed one starts nothing and leaves the handle
  unset.
\<close>

definition pthread_create :: "host \<Rightarrow> handle \<Rightarrow> state \<Rightarrow> int \<times> state" where
  "pthread_create h t s =
     (if create_rc h t = 0 then (0, set_thread t AtLoad s) else (create_rc h t, s))"

text \<open>
  \<open>pthread_join\<close> returns the host's code, \<open>None\<close> while it blocks: a successful
  join waits until the thread has returned, a failed one returns at once. On a handle
  that was never set (C leaves that call undefined) it is taken to return at once.
\<close>

definition pthread_join :: "host \<Rightarrow> handle \<Rightarrow> state \<Rightarrow> int option" where
  "pthread_join h t s =
     (case thread_of t s of
        NoThread \<Rightarrow> Some (join_rc h t)
      | Terminated r \<Rightarrow> Some (join_rc h t)
      | _ \<Rightarrow> if join_rc h t = 0 then None else Some (join_rc h t))"

text \<open>The conversion \<open>%d\<close> of \<open>printf\<close>: a minus sign if negative, then the decimal
  digits without leading zeros.\<close>

definition digit_char :: "nat \<Rightarrow> char" where
  "digit_char d = ''0123456789'' ! d"

function dec_nat :: "nat \<Rightarrow> string" where
  "dec_nat n = (if n < 10 then [digit_char n] else dec_nat (n div 10) @ [digit_char (n mod 10)])"
  by pat_completeness auto
termination
  by (relation "measure id") auto

declare dec_nat.simps [simp del]

definition format_d :: "int \<Rightarrow> string" where
  "format_d i = (if i < 0 then CHR ''-'' # dec_nat (nat (- i)) else dec_nat (nat i))"

text \<open>\<open>printf("%d\n", v)\<close> appends this line to standard output.\<close>

definition printf_line :: "c_int \<Rightarrow> string" where
  "printf_line v = format_d (sint v) @ [CHR 0x0A]"

subsection \<open>The worker\<close>

text \<open>
  \<open>thread_function\<close> called as an ordinary function, with nothing running beside it:
  \<open>shared_data++\<close> reads the cell and writes the value plus one; the result is
  \<open>NULL\<close>. The addition wraps at \<open>INT_MAX\<close>, where C leaves it undefined.
\<close>

definition thread_function :: "ptr \<Rightarrow> state \<Rightarrow> ptr \<times> state" where
  "thread_function arg s =
     (let tmp = shared_data s in (NULL, s\<lparr>shared_data := tmp + 1\<rparr>))"

text \<open>
  The same body, one memory access at a time, as thread \<open>t\<close> runs it. No step reads the
  argument. When \<open>main\<close> has returned, the process has ended and no thread moves.
\<close>

definition worker_step :: "handle \<Rightarrow> state \<Rightarrow> (event \<times> state) option" where
  "worker_step t s =
     (if exited s then None
      else case thread_of t s of
        NoThread \<Rightarrow> None
      | AtLoad \<Rightarrow> Some (Load t, set_thread t (AtStore (shared_data s)) s)
      | AtStore tmp \<Rightarrow> Some (Store t, set_thread t AtReturn (s\<lparr>shared_data := tmp + 1\<rparr>))
      | AtReturn \<Rightarrow> Some (End t, set_thread t (Terminated NULL) s)
      | Terminated r \<Rightarrow> None)"

subsection \<open>The driver\<close>

text \<open>One statement of \<open>main\<close>. The codes returned by \<open>pthread_create\<close> and
  \<open>pthread_join\<close> are dropped, as the source drops them.\<close>

definition main_step :: "host \<Rightarrow> state \<Rightarrow> (event \<times> state) option" where
  "main_step h s =
     (case pc s of
        Create1 \<Rightarrow> (let (rc, s') = pthread_create h T1 s in Some (Spawn T1, s'\<lparr>pc := Create2\<rparr>))
      | Create2 \<Rightarrow> (let (rc, s') = pthread_create h T2 s in Some (Spawn T2, s'\<lparr>pc := Join1\<rparr>))
      | Join1 \<Rightarrow> (case pthread_join h T1 s of
                    None \<Rightarrow> None
                  | Some rc \<Rightarrow> Some (Join T1, s\<lparr>pc := Join2\<rparr>))
      | Join2 \<Rightarrow> (case pthread_join h T2 s of
                    None \<Rightarrow> None
                  | Some rc \<Rightarrow> Some (Join T2, s\<lparr>pc := ReadCell\<rparr>))
      | ReadCell \<Rightarrow> Some (Read, s\<lparr>pc := Print (shared_data s)\<rparr>)
      | Print v \<Rightarrow> Some (Emit, s\<lparr>pc := Return0, stdout := stdout s @ printf_line v\<rparr>)
      | Return0 \<Rightarrow> Some (Return, s\<lparr>pc := Exited 0\<rparr>)
      | Exited rc \<Rightarrow> None)"

subsection \<open>Runs\<close>

fun step :: "host \<Rightarrow> actor \<Rightarrow> state \<Rightarrow> (event \<times> state) option" where
  "step h Main s = main_step h s"
| "step h (Worker t) s = worker_step t s"

text \<open>A configuration is the trace so far and the state. A schedule that names an
  actor who cannot move (blocked, finished or not started) is no run: \<open>None\<close>.\<close>

fun exec :: "host \<Rightarrow> actor list \<Rightarrow> event list \<times> state \<Rightarrow> (event list \<times> state) option" where
  "exec h [] c = Some c"
| "exec h (a # as) (evs, s) =
     (case step h a s of
        None \<Rightarrow> None
      | Some (e, s') \<Rightarrow> exec h as (evs @ [e], s'))"

definition run :: "host \<Rightarrow> actor list \<Rightarrow> (event list \<times> state) option" where
  "run h sched = exec h sched ([], init)"

text \<open>The host on which every call succeeds.\<close>

definition ok_host :: host where
  "ok_host = \<lparr>create_rc = (\<lambda>t. 0), join_rc = (\<lambda>t. 0)\<rparr>"

text \<open>A host on which the second \<open>pthread_create\<close> fails with \<open>EAGAIN\<close> (11) and
  the join on its handle with \<open>ESRCH\<close> (3).\<close>

definition spawn_fail_host :: host where
  "spawn_fail_host =
     \<lparr>create_rc = (\<lambda>t. if t = T2 then 11 else 0), join_rc = (\<lambda>t. if t = T2 then 3 else 0)\<rparr>"

text \<open>A host on which both threads are created and the first \<open>pthread_join\<close> fails with
  \<open>ESRCH\<close> (3).\<close>

definition join_fail_host :: host where
  "join_fail_host = \<lparr>create_rc = (\<lambda>t. 0), join_rc = (\<lambda>t. if t = T1 then 3 else 0)\<rparr>"

text \<open>A host on which no thread can be created.\<close>

definition no_thread_host :: host where
  "no_thread_host = \<lparr>create_rc = (\<lambda>t. 11), join_rc = (\<lambda>t. 3)\<rparr>"

text \<open>Four schedules: the workers one after the other; the workers both reading
  before either writes; the driver with the first worker only; the driver alone.\<close>

definition serial_schedule :: "actor list" where
  "serial_schedule =
     [Main, Main, Worker T1, Worker T1, Worker T1, Worker T2, Worker T2, Worker T2,
      Main, Main, Main, Main, Main]"

definition lost_update_schedule :: "actor list" where
  "lost_update_schedule =
     [Main, Main, Worker T1, Worker T2, Worker T1, Worker T2, Worker T1, Worker T2,
      Main, Main, Main, Main, Main]"

definition one_worker_schedule :: "actor list" where
  "one_worker_schedule =
     [Main, Main, Worker T1, Worker T1, Worker T1, Main, Main, Main, Main, Main]"

definition no_worker_schedule :: "actor list" where
  "no_worker_schedule = [Main, Main, Main, Main, Main, Main, Main]"

subsection \<open>Traces\<close>

text \<open>The statements of \<open>main\<close> and of \<open>thread_function\<close> in program order, and how
  far along that order a program counter is.\<close>

definition main_order :: "event list" where
  "main_order = [Spawn T1, Spawn T2, Join T1, Join T2, Read, Emit, Return]"

definition thread_order :: "handle \<Rightarrow> event list" where
  "thread_order t = [Load t, Store t, End t]"

fun pc_index :: "main_pc \<Rightarrow> nat" where
  "pc_index Create1 = 0"
| "pc_index Create2 = 1"
| "pc_index Join1 = 2"
| "pc_index Join2 = 3"
| "pc_index ReadCell = 4"
| "pc_index (Print v) = 5"
| "pc_index Return0 = 6"
| "pc_index (Exited rc) = 7"

fun thread_index :: "thread \<Rightarrow> nat" where
  "thread_index NoThread = 0"
| "thread_index AtLoad = 0"
| "thread_index (AtStore v) = 1"
| "thread_index AtReturn = 2"
| "thread_index (Terminated r) = 3"

fun is_main :: "event \<Rightarrow> bool" where
  "is_main (Load t) = False"
| "is_main (Store t) = False"
| "is_main (End t) = False"
| "is_main e = True"

fun by_thread :: "handle \<Rightarrow> event \<Rightarrow> bool" where
  "by_thread t (Load u) = (u = t)"
| "by_thread t (Store u) = (u = t)"
| "by_thread t (End u) = (u = t)"
| "by_thread t e = False"

text \<open>\<open>precedes a b es\<close>: in \<open>es\<close>, no \<open>b\<close> occurs unless an \<open>a\<close> occurred before it.\<close>

fun precedes :: "'a \<Rightarrow> 'a \<Rightarrow> 'a list \<Rightarrow> bool" where
  "precedes a b [] = True"
| "precedes a b (e # es) = (e \<noteq> b \<and> (e = a \<or> precedes a b es))"

subsection \<open>Invariants and measure\<close>

text \<open>How many times a thread has written the cell, and whether there is nothing of
  it to wait for.\<close>

fun stored :: "thread \<Rightarrow> nat" where
  "stored AtReturn = 1"
| "stored (Terminated r) = 1"
| "stored th = 0"

fun finished :: "thread \<Rightarrow> bool" where
  "finished NoThread = True"
| "finished (Terminated r) = True"
| "finished th = False"

definition tmp_ok :: "thread \<Rightarrow> nat \<Rightarrow> bool" where
  "tmp_ok th n = (case th of AtStore v \<Rightarrow> unat v \<le> n | _ \<Rightarrow> True)"

text \<open>The cell counts the writes up to lost updates: it is at least 1 once a thread has
  written, at most the number of threads that have; a temporary holds at most what the
  other thread had written when it was read.\<close>

definition cell_inv :: "state \<Rightarrow> bool" where
  "cell_inv s =
     (max (stored (t1 s)) (stored (t2 s)) \<le> unat (shared_data s)
      \<and> unat (shared_data s) \<le> stored (t1 s) + stored (t2 s)
      \<and> tmp_ok (t1 s) (stored (t2 s))
      \<and> tmp_ok (t2 s) (stored (t1 s)))"

text \<open>After \<open>pthread_join\<close> on \<open>t\<close> there is nothing of \<open>t\<close> left running: the thread
  was never created, or the join succeeded.\<close>

definition waited :: "host \<Rightarrow> handle \<Rightarrow> bool" where
  "waited h t = (create_rc h t \<noteq> 0 \<or> join_rc h t = 0)"

definition ctl_inv :: "host \<Rightarrow> state \<Rightarrow> bool" where
  "ctl_inv h s =
     (let i = pc_index (pc s) in
        (i \<le> 0 \<longrightarrow> t1 s = NoThread)
      \<and> (i \<le> 1 \<longrightarrow> t2 s = NoThread)
      \<and> (1 \<le> i \<longrightarrow> (t1 s = NoThread) = (create_rc h T1 \<noteq> 0))
      \<and> (2 \<le> i \<longrightarrow> (t2 s = NoThread) = (create_rc h T2 \<noteq> 0))
      \<and> (3 \<le> i \<and> waited h T1 \<longrightarrow> finished (t1 s))
      \<and> (4 \<le> i \<and> waited h T2 \<longrightarrow> finished (t2 s))
      \<and> (waited h T1 \<and> waited h T2 \<longrightarrow>
           (case pc s of Print v \<Rightarrow> v = shared_data s | _ \<Rightarrow> True))
      \<and> (i \<le> 5 \<longrightarrow> stdout s = [])
      \<and> (6 \<le> i \<and> waited h T1 \<and> waited h T2 \<longrightarrow> stdout s = printf_line (shared_data s))
      \<and> (case pc s of Exited rc \<Rightarrow> rc = 0 | _ \<Rightarrow> True))"

text \<open>The trace of a configuration is its program counters, unfolded.\<close>

definition trace_inv :: "event list \<times> state \<Rightarrow> bool" where
  "trace_inv c =
     (case c of (evs, s) \<Rightarrow>
        filter is_main evs = take (pc_index (pc s)) main_order
      \<and> filter (by_thread T1) evs = take (thread_index (t1 s)) (thread_order T1)
      \<and> filter (by_thread T2) evs = take (thread_index (t2 s)) (thread_order T2))"

text \<open>What holds of every configuration a run reaches.\<close>

definition run_inv :: "host \<Rightarrow> event list \<times> state \<Rightarrow> bool" where
  "run_inv h c = (cell_inv (snd c) \<and> ctl_inv h (snd c) \<and> trace_inv c)"

text \<open>The steps a state has left at most.\<close>

fun thread_left :: "thread \<Rightarrow> nat" where
  "thread_left NoThread = 3"
| "thread_left AtLoad = 3"
| "thread_left (AtStore v) = 2"
| "thread_left AtReturn = 1"
| "thread_left (Terminated r) = 0"

definition steps_left :: "state \<Rightarrow> nat" where
  "steps_left s = (7 - pc_index (pc s)) + thread_left (t1 s) + thread_left (t2 s)"

definition left_inv :: "host \<Rightarrow> event list \<times> state \<Rightarrow> bool" where
  "left_inv h c = (run_inv h c \<and> length (fst c) + steps_left (snd c) = 13)"

text \<open>How many threads the host creates for a handle.\<close>

definition spawned :: "host \<Rightarrow> handle \<Rightarrow> nat" where
  "spawned h t = (if create_rc h t = 0 then 1 else 0)"

definition spawn_first :: "host \<Rightarrow> handle \<Rightarrow> event list \<times> state \<Rightarrow> bool" where
  "spawn_first h t c = (run_inv h c \<and> precedes (Spawn t) (Load t) (fst c))"

text \<open>Once both joins are behind and nothing is left running, only \<open>main\<close> moves and
  the cell stays as it is.\<close>

definition settled :: "c_int \<Rightarrow> event list \<times> state \<Rightarrow> bool" where
  "settled v c =
     (finished (t1 (snd c)) \<and> finished (t2 (snd c)) \<and> 2 \<le> pc_index (pc (snd c))
      \<and> shared_data (snd c) = v)"

section \<open>Invariants of every run\<close>

lemma exec_invariant:
  assumes "\<And>a evs s e s'. P (evs, s) \<Longrightarrow> step h a s = Some (e, s') \<Longrightarrow> P (evs @ [e], s')"
    and "P c" and "exec h sched c = Some c'"
  shows "P c'"
  using assms(2,3)
proof (induction sched arbitrary: c)
  case Nil
  then show ?case by simp
next
  case (Cons a as)
  obtain evs s where c: "c = (evs, s)" by (cases c)
  with Cons.prems(2) obtain e s' where st: "step h a s = Some (e, s')"
    and ex: "exec h as (evs @ [e], s') = Some c'"
    by (auto split: option.splits)
  from assms(1) [OF _ st] Cons.prems(1) c have "P (evs @ [e], s')" by simp
  from Cons.IH [OF this ex] show ?case .
qed

subsection \<open>The cell\<close>

lemma unat_small_Suc: "unat (v :: c_int) \<le> 1 \<Longrightarrow> unat (v + 1) = unat v + 1"
  by (simp add: unat_word_ariths)

lemma cell_inv_init: "cell_inv init"
  by (simp add: cell_inv_def init_def tmp_ok_def)

lemma cell_inv_pc [simp]: "cell_inv (s\<lparr>pc := p\<rparr>) = cell_inv s"
  by (simp add: cell_inv_def)

lemma cell_inv_stdout [simp]: "cell_inv (s\<lparr>stdout := x\<rparr>) = cell_inv s"
  by (simp add: cell_inv_def)

lemma cell_inv_start:
  "thread_of t s = NoThread \<Longrightarrow> cell_inv (set_thread t AtLoad s) = cell_inv s"
  by (cases t) (simp_all add: cell_inv_def tmp_ok_def)

lemma cell_inv_create:
  assumes "cell_inv s" and "thread_of t s = NoThread"
  shows "cell_inv (snd (pthread_create h t s))"
  using assms by (simp add: pthread_create_def cell_inv_start)

lemma cell_inv_worker:
  assumes "cell_inv s" and "worker_step t s = Some (e, s')"
  shows "cell_inv s'"
proof (cases t)
  case T1
  with assms show ?thesis
    by (cases "t1 s"; cases "t2 s")
       (auto simp: worker_step_def cell_inv_def tmp_ok_def unat_small_Suc split: if_splits)
next
  case T2
  with assms show ?thesis
    by (cases "t1 s"; cases "t2 s")
       (auto simp: worker_step_def cell_inv_def tmp_ok_def unat_small_Suc split: if_splits)
qed

lemma cell_inv_main:
  assumes "cell_inv s" and "ctl_inv h s" and "main_step h s = Some (e, s')"
  shows "cell_inv s'"
proof (cases "pc s")
  case Create1
  with assms(2) have "thread_of T1 s = NoThread" by (simp add: ctl_inv_def)
  from cell_inv_create [OF assms(1) this, of h] assms(3) Create1 show ?thesis
    by (auto simp: main_step_def split: prod.splits)
next
  case Create2
  with assms(2) have "thread_of T2 s = NoThread" by (simp add: ctl_inv_def)
  from cell_inv_create [OF assms(1) this, of h] assms(3) Create2 show ?thesis
    by (auto simp: main_step_def split: prod.splits)
next
  case Join1
  with assms(1,3) show ?thesis by (auto simp: main_step_def split: option.splits)
next
  case Join2
  with assms(1,3) show ?thesis by (auto simp: main_step_def split: option.splits)
next
  case ReadCell
  with assms(1,3) show ?thesis by (auto simp: main_step_def)
next
  case (Print v)
  with assms(1,3) show ?thesis by (auto simp: main_step_def)
next
  case Return0
  with assms(1,3) show ?thesis by (auto simp: main_step_def)
next
  case (Exited rc)
  with assms(3) show ?thesis by (simp add: main_step_def)
qed

subsection \<open>Control\<close>

lemma ctl_inv_init: "ctl_inv h init"
  by (simp add: ctl_inv_def init_def)

lemma ctl_inv_worker:
  assumes "ctl_inv h s" and "worker_step t s = Some (e, s')"
  shows "ctl_inv h s'"
proof (cases t)
  case T1
  with assms show ?thesis
    by (cases "t1 s"; cases "pc s")
       (auto simp: worker_step_def ctl_inv_def exited_def split: if_splits)
next
  case T2
  with assms show ?thesis
    by (cases "t2 s"; cases "pc s")
       (auto simp: worker_step_def ctl_inv_def exited_def split: if_splits)
qed

lemma ctl_inv_main:
  assumes "ctl_inv h s" and "main_step h s = Some (e, s')"
  shows "ctl_inv h s'"
  using assms
  by (cases "pc s")
     (auto simp: main_step_def ctl_inv_def pthread_create_def pthread_join_def waited_def
           split: if_splits option.splits thread.splits)

lemma state_inv_step:
  assumes "cell_inv s \<and> ctl_inv h s" and "step h a s = Some (e, s')"
  shows "cell_inv s' \<and> ctl_inv h s'"
proof (cases a)
  case Main
  with assms(2) have m: "main_step h s = Some (e, s')" by simp
  from assms(1) have c: "cell_inv s" and k: "ctl_inv h s" by simp_all
  from cell_inv_main [OF c k m] ctl_inv_main [OF k m] show ?thesis by simp
next
  case (Worker t)
  with assms(2) have w: "worker_step t s = Some (e, s')" by simp
  from assms(1) have c: "cell_inv s" and k: "ctl_inv h s" by simp_all
  from cell_inv_worker [OF c w] ctl_inv_worker [OF k w] show ?thesis by simp
qed

subsection \<open>Traces\<close>

lemma precedes_snoc:
  "precedes a b (es @ [e]) = (precedes a b es \<and> (e = b \<longrightarrow> a \<in> set es))"
  by (induction es) auto

lemma precedes_filter:
  assumes "P a" and "P b"
  shows "precedes a b (filter P es) = precedes a b es"
  using assms by (induction es) auto

lemma precedes_nth:
  "precedes a b es = (\<forall>i < length es. es ! i = b \<longrightarrow> (\<exists>j < i. es ! j = a))"
proof (induction es)
  case Nil
  then show ?case by simp
next
  case (Cons e es)
  show ?case
  proof (cases "e = b")
    case True
    then show ?thesis by auto
  next
    case nb: False
    show ?thesis
    proof (cases "e = a")
      case True
      then show ?thesis using nb by (auto simp: nth_Cons split: nat.splits)
    next
      case False
      have "(\<forall>i < length (e # es). (e # es) ! i = b \<longrightarrow> (\<exists>j < i. (e # es) ! j = a))
          = (\<forall>i < length es. es ! i = b \<longrightarrow> (\<exists>j < i. es ! j = a))"
        (is "?L = ?R")
      proof
        assume l: ?L
        show ?R
        proof (intro allI impI)
          fix i assume i: "i < length es" "es ! i = b"
          with l [rule_format, of "Suc i"] obtain j where j: "j < Suc i" "(e # es) ! j = a"
            by auto
          with False obtain k where "j = Suc k" by (cases j) auto
          with j show "\<exists>j < i. es ! j = a" by auto
        qed
      next
        assume r: ?R
        show ?L
        proof (intro allI impI)
          fix i assume i: "i < length (e # es)" "(e # es) ! i = b"
          with nb obtain k where k: "i = Suc k" by (cases i) auto
          with i r [rule_format, of k] obtain j where "j < k" "es ! j = a" by auto
          with k show "\<exists>j < i. (e # es) ! j = a" by (intro exI [of _ "Suc j"]) auto
        qed
      qed
      with Cons False nb show ?thesis by simp
    qed
  qed
qed

lemma trace_inv_init: "trace_inv ([], init)"
  by (simp add: trace_inv_def init_def)

lemma main_step_event:
  assumes "main_step h s = Some (e, s')" and "ctl_inv h s"
  shows "pc_index (pc s) < 7 \<and> e = main_order ! pc_index (pc s)
         \<and> pc_index (pc s') = Suc (pc_index (pc s))
         \<and> thread_index (t1 s') = thread_index (t1 s)
         \<and> thread_index (t2 s') = thread_index (t2 s)"
  using assms
  by (cases "pc s")
     (auto simp: main_step_def main_order_def pthread_create_def ctl_inv_def
           split: option.splits if_splits)

lemma worker_step_event:
  assumes "worker_step t s = Some (e, s')"
  shows "thread_index (thread_of t s) < 3
         \<and> e = thread_order t ! thread_index (thread_of t s)
         \<and> thread_index (thread_of t s') = Suc (thread_index (thread_of t s))
         \<and> thread_of (other t) s' = thread_of (other t) s
         \<and> pc s' = pc s"
  using assms
  by (cases t; cases "thread_of t s")
     (auto simp: worker_step_def thread_order_def split: if_splits)

lemma main_order_is_main: "i < 7 \<Longrightarrow> is_main (main_order ! i) \<and> \<not> by_thread t (main_order ! i)"
proof -
  assume "i < 7"
  then have "i \<in> {0, 1, 2, 3, 4, 5, 6}" by auto
  then show ?thesis by (auto simp: main_order_def)
qed

lemma thread_order_by_thread:
  "i < 3 \<Longrightarrow> \<not> is_main (thread_order t ! i) \<and> by_thread u (thread_order t ! i) = (t = u)"
proof -
  assume "i < 3"
  then have "i \<in> {0, 1, 2}" by auto
  then show ?thesis by (auto simp: thread_order_def)
qed

lemma trace_inv_main:
  assumes "trace_inv (evs, s)" and "ctl_inv h s" and "main_step h s = Some (e, s')"
  shows "trace_inv (evs @ [e], s')"
proof -
  from main_step_event [OF assms(3,2)]
  have i: "pc_index (pc s) < 7" and e: "e = main_order ! pc_index (pc s)"
    and p: "pc_index (pc s') = Suc (pc_index (pc s))"
    and th: "thread_index (t1 s') = thread_index (t1 s)" "thread_index (t2 s') = thread_index (t2 s)"
    by simp_all
  from main_order_is_main [OF i] e have m: "is_main e" "\<not> by_thread T1 e" "\<not> by_thread T2 e"
    by simp_all
  from i have "take (Suc (pc_index (pc s))) main_order
      = take (pc_index (pc s)) main_order @ [main_order ! pc_index (pc s)]"
    by (intro take_Suc_conv_app_nth) (simp add: main_order_def)
  with assms(1) e p th m show ?thesis by (simp add: trace_inv_def)
qed

lemma trace_inv_worker:
  assumes "trace_inv (evs, s)" and "worker_step t s = Some (e, s')"
  shows "trace_inv (evs @ [e], s')"
proof -
  from worker_step_event [OF assms(2)]
  have i: "thread_index (thread_of t s) < 3" and e: "e = thread_order t ! thread_index (thread_of t s)"
    and n: "thread_index (thread_of t s') = Suc (thread_index (thread_of t s))"
    and o: "thread_of (other t) s' = thread_of (other t) s" and p: "pc s' = pc s"
    by simp_all
  from thread_order_by_thread [OF i] e
  have m: "\<not> is_main e" "by_thread t e" "\<not> by_thread (other t) e"
    by (cases t; simp)+
  from i have tk: "take (Suc (thread_index (thread_of t s))) (thread_order t)
      = take (thread_index (thread_of t s)) (thread_order t) @ [e]"
    unfolding e by (intro take_Suc_conv_app_nth) (simp add: thread_order_def)
  from assms(1) e n o p m tk show ?thesis
    by (cases t) (simp_all add: trace_inv_def)
qed

lemma run_inv_step:
  assumes "run_inv h (evs, s)" and "step h a s = Some (e, s')"
  shows "run_inv h (evs @ [e], s')"
proof -
  from assms(1) have c: "cell_inv s \<and> ctl_inv h s" and k: "ctl_inv h s"
    and t: "trace_inv (evs, s)"
    by (simp_all add: run_inv_def)
  have "trace_inv (evs @ [e], s')"
  proof (cases a)
    case Main
    with assms(2) have "main_step h s = Some (e, s')" by simp
    from trace_inv_main [OF t k this] show ?thesis .
  next
    case (Worker u)
    with assms(2) have "worker_step u s = Some (e, s')" by simp
    from trace_inv_worker [OF t this] show ?thesis .
  qed
  with state_inv_step [OF c assms(2)] show ?thesis by (simp add: run_inv_def)
qed

lemma run_inv:
  assumes "run h sched = Some (evs, s)"
  shows "cell_inv s" and "ctl_inv h s" and "trace_inv (evs, s)"
proof -
  have start: "run_inv h ([], init)"
    by (simp add: run_inv_def cell_inv_init ctl_inv_init trace_inv_init)
  have ex: "exec h sched ([], init) = Some (evs, s)"
    using assms by (simp add: run_def)
  have "run_inv h (evs, s)"
    by (rule exec_invariant [where P = "run_inv h", OF _ start ex]) (rule run_inv_step)
  then show "cell_inv s" and "ctl_inv h s" and "trace_inv (evs, s)"
    by (simp_all add: run_inv_def)
qed

subsection \<open>Termination\<close>

lemma exec_append:
  "exec h (as @ bs) c = (case exec h as c of None \<Rightarrow> None | Some c' \<Rightarrow> exec h bs c')"
proof (induction as arbitrary: c)
  case Nil
  then show ?case by simp
next
  case (Cons a as)
  obtain evs s where "c = (evs, s)" by (cases c)
  with Cons.IH show ?case by (simp split: option.splits prod.splits)
qed

lemma main_step_left:
  assumes "main_step h s = Some (e, s')" and "ctl_inv h s"
  shows "Suc (steps_left s') = steps_left s"
  using assms
  by (cases "pc s")
     (auto simp: main_step_def steps_left_def pthread_create_def ctl_inv_def
           split: option.splits if_splits)

lemma worker_step_left:
  assumes "worker_step t s = Some (e, s')"
  shows "Suc (steps_left s') = steps_left s"
  using assms
  by (cases t; cases "thread_of t s")
     (auto simp: worker_step_def steps_left_def split: if_splits)

lemma step_left:
  assumes "step h a s = Some (e, s')" and "ctl_inv h s"
  shows "Suc (steps_left s') = steps_left s"
  using assms by (cases a) (simp_all add: main_step_left worker_step_left)

lemma run_length:
  assumes "run h sched = Some (evs, s)"
  shows "length evs + steps_left s = 13" and "length evs = length sched"
proof -
  have "steps_left init = 13"
    by (simp add: steps_left_def init_def)
  then have start: "left_inv h ([], init)"
    by (simp add: left_inv_def run_inv_def cell_inv_init ctl_inv_init trace_inv_init)
  have ex: "exec h sched ([], init) = Some (evs, s)"
    using assms by (simp add: run_def)
  have st: "left_inv h (evs0 @ [e], s')" if "left_inv h (evs0, s0)" "step h a s0 = Some (e, s')"
    for a evs0 s0 e s'
  proof -
    from that(1) have r: "run_inv h (evs0, s0)" and l: "length evs0 + steps_left s0 = 13"
      by (simp_all add: left_inv_def)
    from r have "ctl_inv h s0" by (simp add: run_inv_def)
    from step_left [OF that(2) this] l run_inv_step [OF r that(2)] show ?thesis
      by (simp add: left_inv_def)
  qed
  have "left_inv h (evs, s)"
    by (rule exec_invariant [where P = "left_inv h", OF _ start ex]) (rule st)
  then show "length evs + steps_left s = 13" by (simp add: left_inv_def)
  have "length (fst c') = length (fst c) + length sched" if "exec h sched c = Some c'" for c c'
    using that
  proof (induction sched arbitrary: c)
    case Nil
    then show ?case by simp
  next
    case (Cons a as)
    obtain evs0 s0 where c: "c = (evs0, s0)" by (cases c)
    with Cons.prems obtain e1 s1 where "exec h as (evs0 @ [e1], s1) = Some c'"
      by (auto split: option.splits)
    from Cons.IH [OF this] c show ?case by simp
  qed
  from this [OF ex] show "length evs = length sched" by simp
qed

lemma progress:
  assumes "\<not> exited s"
  shows "\<exists>a. step h a s \<noteq> None"
proof (cases "main_step h s")
  case (Some r)
  then have "step h Main s \<noteq> None" by simp
  then show ?thesis ..
next
  case None
  with assms consider "pc s = Join1" "pthread_join h T1 s = None"
    | "pc s = Join2" "pthread_join h T2 s = None"
    by (cases "pc s") (auto simp: main_step_def exited_def split: option.splits prod.splits)
  then show ?thesis
  proof cases
    case 1
    then have "worker_step T1 s \<noteq> None"
      by (cases "t1 s") (auto simp: pthread_join_def worker_step_def exited_def split: if_splits)
    then have "step h (Worker T1) s \<noteq> None" by simp
    then show ?thesis ..
  next
    case 2
    then have "worker_step T2 s \<noteq> None"
      by (cases "t2 s") (auto simp: pthread_join_def worker_step_def exited_def split: if_splits)
    then have "step h (Worker T2) s \<noteq> None" by simp
    then show ?thesis ..
  qed
qed

lemma exited_stuck: "exited s \<Longrightarrow> step h a s = None"
  by (cases a) (auto simp: exited_def main_step_def worker_step_def split: main_pc.splits)

subsection \<open>Concrete runs\<close>

lemmas run_eval =
  run_def init_def main_step_def worker_step_def pthread_create_def pthread_join_def
  exited_def printf_line_def format_d_def digit_char_def dec_nat.simps

lemma run_serial:
  "run ok_host serial_schedule =
     Some ([Spawn T1, Spawn T2, Load T1, Store T1, End T1, Load T2, Store T2, End T2,
            Join T1, Join T2, Read, Emit, Return],
           \<lparr>shared_data = 2, t1 = Terminated NULL, t2 = Terminated NULL,
              pc = Exited 0, stdout = ''2\<newline>''\<rparr>)"
  by (simp add: run_eval ok_host_def serial_schedule_def)

lemma run_lost_update:
  "run ok_host lost_update_schedule =
     Some ([Spawn T1, Spawn T2, Load T1, Load T2, Store T1, Store T2, End T1, End T2,
            Join T1, Join T2, Read, Emit, Return],
           \<lparr>shared_data = 1, t1 = Terminated NULL, t2 = Terminated NULL,
              pc = Exited 0, stdout = ''1\<newline>''\<rparr>)"
  by (simp add: run_eval ok_host_def lost_update_schedule_def)

lemma run_spawn_fail:
  "run spawn_fail_host one_worker_schedule =
     Some ([Spawn T1, Spawn T2, Load T1, Store T1, End T1, Join T1, Join T2, Read, Emit, Return],
           \<lparr>shared_data = 1, t1 = Terminated NULL, t2 = NoThread,
              pc = Exited 0, stdout = ''1\<newline>''\<rparr>)"
  by (simp add: run_eval spawn_fail_host_def one_worker_schedule_def)

lemma run_no_thread:
  "run no_thread_host no_worker_schedule =
     Some ([Spawn T1, Spawn T2, Join T1, Join T2, Read, Emit, Return],
           \<lparr>shared_data = 0, t1 = NoThread, t2 = NoThread,
              pc = Exited 0, stdout = ''0\<newline>''\<rparr>)"
  by (simp add: run_eval no_thread_host_def no_worker_schedule_def)

subsection \<open>The cell after the joins\<close>

lemma printf_line_small:
  "printf_line 0 = ''0\<newline>''" "printf_line 1 = ''1\<newline>''" "printf_line 2 = ''2\<newline>''"
  by (simp_all add: printf_line_def format_d_def digit_char_def dec_nat.simps)

lemma unat_cases:
  fixes v :: c_int
  shows "unat v = 0 \<Longrightarrow> v = 0" and "unat v = 1 \<Longrightarrow> v = 1" and "unat v = 2 \<Longrightarrow> v = 2"
  by (simp_all add: word_unat_eq_iff)

lemma finished_stored:
  "finished th \<Longrightarrow> stored th = (if th = NoThread then 0 else 1)"
  by (cases th) simp_all

lemma cell_after_joins:
  assumes "run h sched = Some (evs, s)" and "4 \<le> pc_index (pc s)"
    and "waited h T1" and "waited h T2"
  shows "max (spawned h T1) (spawned h T2) \<le> unat (shared_data s)"
    and "unat (shared_data s) \<le> spawned h T1 + spawned h T2"
    and "finished (t1 s)" and "finished (t2 s)"
proof -
  from run_inv [OF assms(1)] have c: "cell_inv s" and k: "ctl_inv h s" by simp_all
  from k assms(2-4) show f: "finished (t1 s)" "finished (t2 s)"
    by (simp_all add: ctl_inv_def Let_def)
  from k assms(2) have "(t1 s = NoThread) = (create_rc h T1 \<noteq> 0)"
    "(t2 s = NoThread) = (create_rc h T2 \<noteq> 0)"
    by (simp_all add: ctl_inv_def Let_def)
  with f have "stored (t1 s) = spawned h T1" "stored (t2 s) = spawned h T2"
    by (simp_all add: finished_stored spawned_def)
  with c show "max (spawned h T1) (spawned h T2) \<le> unat (shared_data s)"
    and "unat (shared_data s) \<le> spawned h T1 + spawned h T2"
    by (simp_all add: cell_inv_def)
qed

lemma output_after_print:
  assumes "run h sched = Some (evs, s)" and "6 \<le> pc_index (pc s)"
    and "waited h T1" and "waited h T2"
  shows "stdout s = printf_line (shared_data s)"
  using run_inv(2) [OF assms(1)] assms(2-4) by (simp add: ctl_inv_def Let_def)

lemma exit_status_zero:
  assumes "run h sched = Some (evs, s)" and "pc s = Exited rc"
  shows "rc = 0"
  using run_inv(2) [OF assms(1)] assms(2) by (simp add: ctl_inv_def Let_def)

lemma completes:
  assumes "run h sched = Some (evs, s)"
  shows "\<exists>sched' evs' s'. run h (sched @ sched') = Some (evs', s') \<and> pc s' = Exited 0"
  using assms
proof (induction "steps_left s" arbitrary: sched evs s rule: less_induct)
  case less
  show ?case
  proof (cases "exited s")
    case True
    then obtain rc where rc: "pc s = Exited rc"
      by (cases "pc s") (simp_all add: exited_def)
    from exit_status_zero [OF less.prems rc] rc have "pc s = Exited 0" by simp
    with less.prems have "run h (sched @ []) = Some (evs, s) \<and> pc s = Exited 0" by simp
    then show ?thesis by blast
  next
    case False
    from progress [OF False, of h] obtain a e s1 where st: "step h a s = Some (e, s1)"
      by auto
    from less.prems st have r: "run h (sched @ [a]) = Some (evs @ [e], s1)"
      by (simp add: run_def exec_append)
    from run_inv(2) [OF less.prems] have "ctl_inv h s" .
    from step_left [OF st this] have "steps_left s1 < steps_left s" by simp
    from less.hyps [OF this r] obtain sched' evs' s'
      where "run h ((sched @ [a]) @ sched') = Some (evs', s')" and "pc s' = Exited 0"
      by blast
    then have "run h (sched @ (a # sched')) = Some (evs', s') \<and> pc s' = Exited 0" by simp
    then show ?thesis by blast
  qed
qed

subsection \<open>The worker, uninterrupted\<close>

lemma sint_succ:
  fixes v :: c_int
  assumes "sint v < 2147483647"
  shows "sint (v + 1) = sint v + 1"
proof -
  have "- (2 ^ 31) \<le> sint v"
    using sint_ge [of v] by simp
  with assms have "signed_take_bit 31 (sint v + 1) = sint v + 1"
    by (simp add: signed_take_bit_int_eq_self)
  then show ?thesis by (simp add: sint_word_ariths)
qed

lemma worker_uninterrupted:
  assumes "thread_of t s = AtLoad" and "\<not> exited s"
  shows "exec h [Worker t, Worker t, Worker t] (evs, s) =
    Some (evs @ [Load t, Store t, End t],
          set_thread t (Terminated (fst (thread_function arg s))) (snd (thread_function arg s)))"
  using assms
  by (cases t) (simp_all add: worker_step_def thread_function_def exited_def)

lemma workers_only_frame:
  assumes "exec h sched c = Some c'" and "Main \<notin> set sched"
  shows "pc (snd c') = pc (snd c) \<and> stdout (snd c') = stdout (snd c)"
  using assms
proof (induction sched arbitrary: c)
  case Nil
  then show ?case by simp
next
  case (Cons a as)
  obtain evs s where c: "c = (evs, s)" by (cases c)
  from Cons.prems(2) obtain t where a: "a = Worker t" by (cases a) auto
  from Cons.prems(1) c a obtain e s1 where w: "worker_step t s = Some (e, s1)"
    and ex: "exec h as (evs @ [e], s1) = Some c'"
    by (auto split: option.splits)
  from worker_step_event [OF w] have "pc s1 = pc s" by simp
  moreover from w have "stdout s1 = stdout s"
    by (cases t; cases "thread_of t s") (auto simp: worker_step_def split: if_splits)
  moreover from Cons.IH [OF ex] Cons.prems(2)
  have "pc (snd c') = pc s1 \<and> stdout (snd c') = stdout s1" by simp
  ultimately show ?case using c by simp
qed

subsection \<open>Order of the steps\<close>

lemma pc_index_le: "pc_index p \<le> 7"
  by (cases p) simp_all

lemma upto_7: "i \<le> (7::nat) \<Longrightarrow> i \<in> {0, 1, 2, 3, 4, 5, 6, 7}"
  by auto

lemma main_order_precedes:
  assumes "i \<le> 7"
  shows "precedes (Spawn t) (Join u) (take i main_order)"
    and "precedes (Join t) Read (take i main_order)"
    and "precedes (Join t) Emit (take i main_order)"
    and "precedes Read Emit (take i main_order)"
  using upto_7 [OF assms] by (cases t; cases u; auto simp: main_order_def)+

lemma main_precedes:
  assumes "run h sched = Some (evs, s)" and "is_main a" and "is_main b"
  shows "precedes a b evs = precedes a b (take (pc_index (pc s)) main_order)"
proof -
  from run_inv(3) [OF assms(1)]
  have "filter is_main evs = take (pc_index (pc s)) main_order"
    by (simp add: trace_inv_def)
  with precedes_filter [of is_main a b evs] assms(2,3) show ?thesis by simp
qed

lemma started_after_spawn:
  assumes "run_inv h (evs, s)" and "thread_of t s \<noteq> NoThread"
  shows "Spawn t \<in> set evs"
proof -
  from assms(1) have k: "ctl_inv h s" and tr: "trace_inv (evs, s)"
    by (simp_all add: run_inv_def)
  from tr have f: "filter is_main evs = take (pc_index (pc s)) main_order"
    by (simp add: trace_inv_def)
  from k assms(2) have "Spawn t \<in> set (take (pc_index (pc s)) main_order)"
    by (cases t; cases "pc s") (auto simp: ctl_inv_def main_order_def)
  with f have "Spawn t \<in> set (filter is_main evs)" by simp
  then show ?thesis by simp
qed

lemma spawn_first_step:
  assumes "spawn_first h t (evs, s)" and "step h a s = Some (e, s')"
  shows "spawn_first h t (evs @ [e], s')"
proof -
  from assms(1) have r: "run_inv h (evs, s)" and p: "precedes (Spawn t) (Load t) evs"
    by (simp_all add: spawn_first_def)
  have "Spawn t \<in> set evs" if "e = Load t"
  proof -
    from that assms(2) have "worker_step t s = Some (Load t, s')"
      by (cases a; cases "pc s")
         (auto simp: main_step_def worker_step_def pthread_create_def
               split: option.splits thread.splits if_splits)
    then have "thread_of t s \<noteq> NoThread"
      by (auto simp: worker_step_def split: if_splits)
    from started_after_spawn [OF r this] show ?thesis .
  qed
  with p have "precedes (Spawn t) (Load t) (evs @ [e])"
    by (simp add: precedes_snoc)
  with run_inv_step [OF r assms(2)] show ?thesis by (simp add: spawn_first_def)
qed

lemma spawn_precedes_load:
  assumes "run h sched = Some (evs, s)"
  shows "precedes (Spawn t) (Load t) evs"
proof -
  have start: "spawn_first h t ([], init)"
    by (simp add: spawn_first_def run_inv_def cell_inv_init ctl_inv_init trace_inv_init)
  have ex: "exec h sched ([], init) = Some (evs, s)"
    using assms by (simp add: run_def)
  have "spawn_first h t (evs, s)"
    by (rule exec_invariant [where P = "spawn_first h t", OF _ start ex])
       (rule spawn_first_step)
  then show ?thesis by (simp add: spawn_first_def)
qed

lemma no_store_stored:
  assumes "trace_inv (evs, s)" and "Store t \<notin> set evs"
  shows "stored (thread_of t s) = 0"
proof -
  from assms(1) have f: "filter (by_thread t) evs
      = take (thread_index (thread_of t s)) [Load t, Store t, End t]"
    by (cases t) (simp_all add: trace_inv_def thread_order_def)
  from assms(2) have "Store t \<notin> set (filter (by_thread t) evs)" by simp
  with f have "Store t \<notin> set (take (thread_index (thread_of t s)) [Load t, Store t, End t])"
    by simp
  then show ?thesis by (cases "thread_of t s") (simp_all add: numeral_2_eq_2 numeral_3_eq_3)
qed

lemma cell_zero_before_store:
  assumes "run h sched = Some (evs, s)" and "\<forall>t. Store t \<notin> set evs"
  shows "shared_data s = 0"
proof -
  from run_inv [OF assms(1)] have c: "cell_inv s" and tr: "trace_inv (evs, s)" by simp_all
  from no_store_stored [OF tr, of T1] no_store_stored [OF tr, of T2] assms(2)
  have "stored (t1 s) = 0" "stored (t2 s) = 0" by simp_all
  with c have "unat (shared_data s) = 0" by (simp add: cell_inv_def)
  then show ?thesis by (rule unat_cases(1))
qed

subsection \<open>Output\<close>

lemma dec_nat_digits: "set (dec_nat n) \<subseteq> set ''0123456789''"
proof (induction n rule: dec_nat.induct)
  case (1 n)
  have d: "digit_char k \<in> set ''0123456789''" if "k < 10" for k
  proof -
    from that have "k \<in> {0, 1, 2, 3, 4, 5, 6, 7, 8, 9}" by auto
    then show ?thesis by (auto simp: digit_char_def)
  qed
  show ?case
  proof (cases "n < 10")
    case True
    then show ?thesis using d [of n] by (subst dec_nat.simps) simp
  next
    case False
    with "1.IH" d [of "n mod 10"] show ?thesis by (subst dec_nat.simps) simp
  qed
qed

lemma format_d_no_newline: "CHR 0x0A \<notin> set (format_d i)"
  using dec_nat_digits [of "nat i"] dec_nat_digits [of "nat (- i)"]
  by (auto simp: format_d_def)

lemma settled_step:
  assumes "settled v (evs, s)" and "step h a s = Some (e, s')"
  shows "settled v (evs @ [e], s')"
proof (cases a)
  case Main
  with assms show ?thesis
    by (cases "pc s")
       (auto simp: settled_def main_step_def pthread_create_def
             split: option.splits if_splits)
next
  case (Worker t)
  with assms show ?thesis
    by (cases t; cases "thread_of t s")
       (auto simp: settled_def worker_step_def split: if_splits)
qed

lemma cell_settled:
  assumes "run h sched0 = Some (evs0, s0)" and "4 \<le> pc_index (pc s0)"
    and "waited h T1" and "waited h T2"
    and "exec h sched1 (evs0, s0) = Some (evs, s)"
  shows "shared_data s = shared_data s0"
proof -
  from cell_after_joins(3,4) [OF assms(1-4)] assms(2)
  have start: "settled (shared_data s0) (evs0, s0)" by (simp add: settled_def)
  have "settled (shared_data s0) (evs, s)"
    by (rule exec_invariant [where P = "settled (shared_data s0)", OF _ start assms(5)])
       (rule settled_step)
  then show ?thesis by (simp add: settled_def)
qed

lemma run_append:
  assumes "run h sched0 = Some (evs0, s0)" and "exec h sched1 (evs0, s0) = Some (evs, s)"
  shows "run h (sched0 @ sched1) = Some (evs, s)"
  using assms by (simp add: run_def exec_append)

lemma emitted_once:
  assumes "run h sched = Some (evs, s)" and "pc s = Exited rc"
  shows "filter (\<lambda>e. e = Emit) evs = [Emit]"
proof -
  from run_inv(3) [OF assms(1)] assms(2) have "filter is_main evs = main_order"
    by (simp add: trace_inv_def main_order_def)
  then have "filter (\<lambda>e. e = Emit) (filter is_main evs) = [Emit]"
    by (simp add: main_order_def)
  moreover have "(\<lambda>e. is_main e \<and> e = Emit) = (\<lambda>e. e = Emit)" by auto
  ultimately show ?thesis by simp
qed

lemma run_join_fail:
  "run join_fail_host serial_schedule =
     Some ([Spawn T1, Spawn T2, Load T1, Store T1, End T1, Load T2, Store T2, End T2,
            Join T1, Join T2, Read, Emit, Return],
           \<lparr>shared_data = 2, t1 = Terminated NULL, t2 = Terminated NULL,
              pc = Exited 0, stdout = ''2\<newline>''\<rparr>)"
  by (simp add: run_eval join_fail_host_def serial_schedule_def)

lemma main_ran_through:
  assumes "run h sched = Some (evs, s)" and "pc s = Exited rc"
  shows "filter is_main evs = main_order"
  using run_inv(3) [OF assms(1)] assms(2) by (simp add: trace_inv_def main_order_def)

section \<open>The claims\<close>

text \<open>
  C1. Every run that completes normally, with both workers spawned and both joined, ends
  with the cell at 1 or at 2, and the value it printed is that value: the output is the
  line \<open>1\<close> or the line \<open>2\<close>.
\<close>

theorem emitted_value_one_or_two:
  assumes "create_rc h T1 = 0" and "create_rc h T2 = 0"
    and "join_rc h T1 = 0" and "join_rc h T2 = 0"
    and "run h sched = Some (evs, s)" and "pc s = Exited rc"
  shows "(shared_data s = 1 \<or> shared_data s = 2)
       \<and> stdout s = printf_line (shared_data s)
       \<and> (stdout s = ''1\<newline>'' \<or> stdout s = ''2\<newline>'')"
proof -
  from assms(1-4) have w: "waited h T1" "waited h T2"
    and sp: "spawned h T1 = 1" "spawned h T2 = 1"
    by (simp_all add: waited_def spawned_def)
  from assms(6) have i: "4 \<le> pc_index (pc s)" "6 \<le> pc_index (pc s)" by simp_all
  from cell_after_joins(1,2) [OF assms(5) i(1) w] sp
  have "unat (shared_data s) = 1 \<or> unat (shared_data s) = 2" by auto
  then have v: "shared_data s = 1 \<or> shared_data s = 2"
    using unat_cases(2,3) by blast
  from output_after_print [OF assms(5) i(2) w]
  have o: "stdout s = printf_line (shared_data s)" .
  from v o show ?thesis by (auto simp: printf_line_small)
qed

theorem emitted_value_one_or_two_witness:
  "create_rc ok_host T1 = 0 \<and> create_rc ok_host T2 = 0
   \<and> join_rc ok_host T1 = 0 \<and> join_rc ok_host T2 = 0
   \<and> run ok_host lost_update_schedule \<noteq> None
   \<and> map_option (pc \<circ> snd) (run ok_host lost_update_schedule) = Some (Exited 0)
   \<and> map_option (shared_data \<circ> snd) (run ok_host lost_update_schedule) = Some 1
   \<and> map_option (stdout \<circ> snd) (run ok_host lost_update_schedule) = Some ''1\<newline>''"
proof -
  have h: "create_rc ok_host T1 = 0" "create_rc ok_host T2 = 0"
    "join_rc ok_host T1 = 0" "join_rc ok_host T2 = 0"
    by (simp_all add: ok_host_def)
  from emitted_value_one_or_two [OF h run_lost_update] h run_lost_update
  show ?thesis by simp
qed

text \<open>
  C2. The increment is a read and a write that other steps can come between. On the host
  where every call succeeds, the schedule in which both workers read before either writes
  loses an update and prints 1; the schedule that runs the workers one after the other
  prints 2.
\<close>

theorem both_outcomes_reachable:
  "run ok_host lost_update_schedule =
     Some ([Spawn T1, Spawn T2, Load T1, Load T2, Store T1, Store T2, End T1, End T2,
            Join T1, Join T2, Read, Emit, Return],
           \<lparr>shared_data = 1, t1 = Terminated NULL, t2 = Terminated NULL,
              pc = Exited 0, stdout = ''1\<newline>''\<rparr>)
   \<and> run ok_host serial_schedule =
     Some ([Spawn T1, Spawn T2, Load T1, Store T1, End T1, Load T2, Store T2, End T2,
            Join T1, Join T2, Read, Emit, Return],
           \<lparr>shared_data = 2, t1 = Terminated NULL, t2 = Terminated NULL,
              pc = Exited 0, stdout = ''2\<newline>''\<rparr>)"
  using run_lost_update run_serial by simp

text \<open>
  C3, as stated, fails: a failed spawn or join does not give a nonzero exit status. On a
  host whose second \<open>pthread_create\<close> fails (and the join on that handle with it), and on
  a host whose first \<open>pthread_join\<close> fails, \<open>main\<close> runs to its end and exits with 0.
\<close>

theorem failed_spawn_or_join_exits_zero:
  "create_rc spawn_fail_host T2 = 11 \<and> join_rc spawn_fail_host T2 = 3
   \<and> run spawn_fail_host one_worker_schedule =
     Some ([Spawn T1, Spawn T2, Load T1, Store T1, End T1, Join T1, Join T2, Read, Emit, Return],
           \<lparr>shared_data = 1, t1 = Terminated NULL, t2 = NoThread,
              pc = Exited 0, stdout = ''1\<newline>''\<rparr>)
   \<and> create_rc join_fail_host T1 = 0 \<and> create_rc join_fail_host T2 = 0
   \<and> join_rc join_fail_host T1 = 3
   \<and> run join_fail_host serial_schedule =
     Some ([Spawn T1, Spawn T2, Load T1, Store T1, End T1, Load T2, Store T2, End T2,
            Join T1, Join T2, Read, Emit, Return],
           \<lparr>shared_data = 2, t1 = Terminated NULL, t2 = Terminated NULL,
              pc = Exited 0, stdout = ''2\<newline>''\<rparr>)"
  using run_spawn_fail run_join_fail by (simp add: spawn_fail_host_def join_fail_host_def)

text \<open>
  C3, amended. \<open>main\<close> drops the codes that \<open>pthread_create\<close> and \<open>pthread_join\<close>
  return. When a spawn or a join fails, \<open>main\<close> still executes all its statements in
  order, and every run that returns exits with status 0.
\<close>

theorem failed_calls_are_ignored:
  assumes "run h sched = Some (evs, s)" and "pc s = Exited rc"
    and "create_rc h t \<noteq> 0 \<or> join_rc h t \<noteq> 0"
  shows "rc = 0 \<and> filter is_main evs = main_order"
  using exit_status_zero [OF assms(1,2)] main_ran_through [OF assms(1,2)] by simp

theorem failed_calls_are_ignored_witness:
  "run spawn_fail_host one_worker_schedule =
     Some ([Spawn T1, Spawn T2, Load T1, Store T1, End T1, Join T1, Join T2, Read, Emit, Return],
           \<lparr>shared_data = 1, t1 = Terminated NULL, t2 = NoThread,
              pc = Exited 0, stdout = ''1\<newline>''\<rparr>)
   \<and> create_rc spawn_fail_host T2 \<noteq> 0
   \<and> filter is_main
        [Spawn T1, Spawn T2, Load T1, Store T1, End T1, Join T1, Join T2, Read, Emit, Return]
      = main_order"
proof -
  have f: "create_rc spawn_fail_host T2 \<noteq> 0 \<or> join_rc spawn_fail_host T2 \<noteq> 0"
    by (simp add: spawn_fail_host_def)
  from failed_calls_are_ignored [OF run_spawn_fail _ f] run_spawn_fail
  show ?thesis by (simp add: spawn_fail_host_def)
qed

text \<open>
  C4. Every run ends with exit status 0. A run has at most 13 steps; a run that has not
  exited can take a step, so it never hangs; every run can be continued until \<open>main\<close>
  returns; and the status \<open>main\<close> returns with is 0, whatever the host's calls returned.
\<close>

theorem exit_status_always_zero:
  assumes "run h sched = Some (evs, s)"
  shows "length sched \<le> 13
       \<and> (exited s \<or> (\<exists>a. step h a s \<noteq> None))
       \<and> (\<exists>sched' evs' s'. run h (sched @ sched') = Some (evs', s') \<and> pc s' = Exited 0)
       \<and> (\<forall>rc. pc s = Exited rc \<longrightarrow> rc = 0)"
proof -
  from run_length [OF assms] have "length sched \<le> 13" by simp
  moreover from progress [of s h] have "exited s \<or> (\<exists>a. step h a s \<noteq> None)" by blast
  moreover note completes [OF assms]
  moreover from exit_status_zero [OF assms] have "\<forall>rc. pc s = Exited rc \<longrightarrow> rc = 0" by blast
  ultimately show ?thesis by blast
qed

theorem exit_status_always_zero_witness:
  "run ok_host serial_schedule \<noteq> None
   \<and> length serial_schedule \<le> 13
   \<and> map_option (pc \<circ> snd) (run ok_host serial_schedule) = Some (Exited 0)"
  using exit_status_always_zero [OF run_serial] run_serial
  by (simp add: serial_schedule_def)

text \<open>
  C5. The driver's steps come in program order. The cell is 0 at the start and stays 0
  until a thread stores. In every run, the steps of \<open>main\<close> are an initial part of:
  spawn the first worker, spawn the second, join the first, join the second, read the
  cell, print, return. So no join comes before both spawns, the cell is not read before
  both joins, and nothing is printed before the read, hence not before either join. A
  thread takes no step before it is spawned.
\<close>

theorem driver_steps_in_order:
  assumes "run h sched = Some (evs, s)"
  shows "shared_data init = 0
       \<and> ((\<forall>t. Store t \<notin> set evs) \<longrightarrow> shared_data s = 0)
       \<and> filter is_main evs = take (pc_index (pc s)) main_order
       \<and> (\<forall>t u. precedes (Spawn t) (Join u) evs)
       \<and> (\<forall>t. precedes (Spawn t) (Load t) evs)
       \<and> (\<forall>t. precedes (Join t) Read evs)
       \<and> precedes Read Emit evs
       \<and> (\<forall>t. precedes (Join t) Emit evs)"
proof -
  have i: "pc_index (pc s) \<le> 7" by (rule pc_index_le)
  have "filter is_main evs = take (pc_index (pc s)) main_order"
    using run_inv(3) [OF assms] by (simp add: trace_inv_def)
  moreover have "\<forall>t u. precedes (Spawn t) (Join u) evs"
    using main_precedes [OF assms, of "Spawn _" "Join _"] main_order_precedes(1) [OF i]
    by simp
  moreover have "\<forall>t. precedes (Join t) Read evs"
    using main_precedes [OF assms, of "Join _" Read] main_order_precedes(2) [OF i]
    by simp
  moreover have "\<forall>t. precedes (Join t) Emit evs"
    using main_precedes [OF assms, of "Join _" Emit] main_order_precedes(3) [OF i]
    by simp
  moreover have "precedes Read Emit evs"
    using main_precedes [OF assms, of Read Emit] main_order_precedes(4) [OF i]
    by simp
  moreover have "\<forall>t. precedes (Spawn t) (Load t) evs"
    using spawn_precedes_load [OF assms] by simp
  moreover have "(\<forall>t. Store t \<notin> set evs) \<longrightarrow> shared_data s = 0"
    using cell_zero_before_store [OF assms] by simp
  moreover have "shared_data init = 0" by (simp add: init_def)
  ultimately show ?thesis by simp
qed

theorem driver_steps_in_order_witness:
  "run ok_host lost_update_schedule =
     Some ([Spawn T1, Spawn T2, Load T1, Load T2, Store T1, Store T2, End T1, End T2,
            Join T1, Join T2, Read, Emit, Return],
           \<lparr>shared_data = 1, t1 = Terminated NULL, t2 = Terminated NULL,
              pc = Exited 0, stdout = ''1\<newline>''\<rparr>)
   \<and> precedes (Spawn T2) (Join T1)
        [Spawn T1, Spawn T2, Load T1, Load T2, Store T1, Store T2, End T1, End T2,
         Join T1, Join T2, Read, Emit, Return]
   \<and> precedes (Join T2) Read
        [Spawn T1, Spawn T2, Load T1, Load T2, Store T1, Store T2, End T1, End T2,
         Join T1, Join T2, Read, Emit, Return]
   \<and> precedes Read Emit
        [Spawn T1, Spawn T2, Load T1, Load T2, Store T1, Store T2, End T1, End T2,
         Join T1, Join T2, Read, Emit, Return]
   \<and> run ok_host [Main, Main, Worker T1] =
       Some ([Spawn T1, Spawn T2, Load T1],
             \<lparr>shared_data = 0, t1 = AtStore 0, t2 = AtLoad, pc = Join1, stdout = []\<rparr>)"
proof -
  have r: "run ok_host [Main, Main, Worker T1] =
       Some ([Spawn T1, Spawn T2, Load T1],
             \<lparr>shared_data = 0, t1 = AtStore 0, t2 = AtLoad, pc = Join1, stdout = []\<rparr>)"
    by (simp add: run_eval ok_host_def)
  from driver_steps_in_order [OF run_lost_update] driver_steps_in_order [OF r]
    run_lost_update r
  show ?thesis by simp
qed

text \<open>
  C6. A worker performs exactly one increment and produces no result. Called as a
  function, \<open>thread_function\<close> returns \<open>NULL\<close> and leaves the cell one higher (in
  32-bit arithmetic, and as a signed number whenever the cell was below \<open>INT_MAX\<close>). A
  thread that runs its three steps with nothing in between has exactly that effect. In any
  run, the steps of a thread are an initial part of: one load, one store, one return.
\<close>

theorem worker_exactly_one_increment:
  "fst (thread_function arg s) = NULL
   \<and> shared_data (snd (thread_function arg s)) = shared_data s + 1
   \<and> (sint (shared_data s) < 2147483647 \<longrightarrow>
        sint (shared_data (snd (thread_function arg s))) = sint (shared_data s) + 1)
   \<and> (thread_of t s = AtLoad \<and> \<not> exited s \<longrightarrow>
        exec h [Worker t, Worker t, Worker t] (evs, s) =
          Some (evs @ [Load t, Store t, End t],
                set_thread t (Terminated (fst (thread_function arg s)))
                  (snd (thread_function arg s))))
   \<and> (run h sched = Some (tr, s') \<longrightarrow>
        filter (by_thread t) tr = take (thread_index (thread_of t s')) [Load t, Store t, End t])"
proof -
  have "run h sched = Some (tr, s') \<longrightarrow>
        filter (by_thread t) tr = take (thread_index (thread_of t s')) [Load t, Store t, End t]"
  proof
    assume "run h sched = Some (tr, s')"
    from run_inv(3) [OF this] show
      "filter (by_thread t) tr = take (thread_index (thread_of t s')) [Load t, Store t, End t]"
      by (cases t) (simp_all add: trace_inv_def thread_order_def)
  qed
  moreover have "sint (shared_data s) < 2147483647 \<longrightarrow>
        sint (shared_data (snd (thread_function arg s))) = sint (shared_data s) + 1"
    by (simp add: thread_function_def sint_succ)
  moreover have "fst (thread_function arg s) = NULL"
    "shared_data (snd (thread_function arg s)) = shared_data s + 1"
    by (simp_all add: thread_function_def)
  moreover note worker_uninterrupted [of t s h evs arg]
  ultimately show ?thesis by blast
qed

theorem worker_exactly_one_increment_witness:
  "sint (shared_data init) < 2147483647
   \<and> sint (shared_data (snd (thread_function NULL init))) = 1
   \<and> thread_of T1 (init\<lparr>t1 := AtLoad\<rparr>) = AtLoad \<and> \<not> exited (init\<lparr>t1 := AtLoad\<rparr>)
   \<and> exec ok_host [Worker T1, Worker T1, Worker T1] ([], init\<lparr>t1 := AtLoad\<rparr>) =
        Some ([Load T1, Store T1, End T1], init\<lparr>t1 := Terminated NULL, shared_data := 1\<rparr>)
   \<and> run ok_host lost_update_schedule \<noteq> None
   \<and> filter (by_thread T1) [Spawn T1, Spawn T2, Load T1, Load T2, Store T1, Store T2, End T1,
        End T2, Join T1, Join T2, Read, Emit, Return] = [Load T1, Store T1, End T1]"
  using worker_exactly_one_increment
    [where arg = NULL and s = "init\<lparr>t1 := AtLoad\<rparr>" and t = T1 and h = ok_host
      and evs = "[]" and sched = lost_update_schedule
      and tr = "[Spawn T1, Spawn T2, Load T1, Load T2, Store T1, Store T2, End T1,
        End T2, Join T1, Join T2, Read, Emit, Return]"
      and s' = "\<lparr>shared_data = 1, t1 = Terminated NULL, t2 = Terminated NULL,
              pc = Exited 0, stdout = ''1\<newline>''\<rparr>"]
    run_lost_update
  by (simp add: init_def exited_def thread_function_def)

text \<open>
  C7. On the success path standard output is a single line. Take a run on a host where
  both creates and both joins succeed, at the point where \<open>main\<close> is past the second
  join and about to read the cell, and continue it until \<open>main\<close> has returned: the
  output is then the decimal digits of the cell as it was after the joins, followed by
  one newline; the digits contain no newline; \<open>printf\<close> ran once; and the cell has not
  changed since the joins.
\<close>

theorem output_is_one_line:
  assumes "create_rc h T1 = 0" and "create_rc h T2 = 0"
    and "join_rc h T1 = 0" and "join_rc h T2 = 0"
    and "run h sched0 = Some (evs0, s0)" and "pc s0 = ReadCell"
    and "exec h sched1 (evs0, s0) = Some (evs, s)" and "pc s = Exited rc"
  shows "stdout s = format_d (sint (shared_data s0)) @ ''\<newline>''
       \<and> CHR 0x0A \<notin> set (format_d (sint (shared_data s0)))
       \<and> filter (\<lambda>e. e = Emit) evs = [Emit]
       \<and> shared_data s = shared_data s0"
proof -
  from assms(1-4) have w: "waited h T1" "waited h T2" by (simp_all add: waited_def)
  from assms(6) have i0: "4 \<le> pc_index (pc s0)" by simp
  from assms(8) have i: "6 \<le> pc_index (pc s)" by simp
  note r = run_append [OF assms(5,7)]
  from cell_settled [OF assms(5) i0 w assms(7)] have c: "shared_data s = shared_data s0" .
  from output_after_print [OF r i w] c
  have "stdout s = format_d (sint (shared_data s0)) @ ''\<newline>''"
    by (simp add: printf_line_def)
  with c emitted_once [OF r assms(8)] format_d_no_newline show ?thesis by simp
qed

theorem output_is_one_line_witness:
  "create_rc ok_host T1 = 0 \<and> create_rc ok_host T2 = 0
   \<and> join_rc ok_host T1 = 0 \<and> join_rc ok_host T2 = 0
   \<and> run ok_host (take 10 serial_schedule) =
       Some ([Spawn T1, Spawn T2, Load T1, Store T1, End T1, Load T2, Store T2, End T2,
              Join T1, Join T2],
             \<lparr>shared_data = 2, t1 = Terminated NULL, t2 = Terminated NULL,
                pc = ReadCell, stdout = []\<rparr>)
   \<and> exec ok_host [Main, Main, Main]
        ([Spawn T1, Spawn T2, Load T1, Store T1, End T1, Load T2, Store T2, End T2,
          Join T1, Join T2],
         \<lparr>shared_data = 2, t1 = Terminated NULL, t2 = Terminated NULL,
            pc = ReadCell, stdout = []\<rparr>) =
       Some ([Spawn T1, Spawn T2, Load T1, Store T1, End T1, Load T2, Store T2, End T2,
              Join T1, Join T2, Read, Emit, Return],
             \<lparr>shared_data = 2, t1 = Terminated NULL, t2 = Terminated NULL,
                pc = Exited 0, stdout = ''2\<newline>''\<rparr>)
   \<and> format_d (sint (2 :: c_int)) @ ''\<newline>'' = ''2\<newline>''"
proof -
  have h: "create_rc ok_host T1 = 0" "create_rc ok_host T2 = 0"
    "join_rc ok_host T1 = 0" "join_rc ok_host T2 = 0"
    by (simp_all add: ok_host_def)
  have r0: "run ok_host (take 10 serial_schedule) =
       Some ([Spawn T1, Spawn T2, Load T1, Store T1, End T1, Load T2, Store T2, End T2,
              Join T1, Join T2],
             \<lparr>shared_data = 2, t1 = Terminated NULL, t2 = Terminated NULL,
                pc = ReadCell, stdout = []\<rparr>)"
    by (simp add: run_eval ok_host_def serial_schedule_def)
  have r1: "exec ok_host [Main, Main, Main]
        ([Spawn T1, Spawn T2, Load T1, Store T1, End T1, Load T2, Store T2, End T2,
          Join T1, Join T2],
         \<lparr>shared_data = 2, t1 = Terminated NULL, t2 = Terminated NULL,
            pc = ReadCell, stdout = []\<rparr>) =
       Some ([Spawn T1, Spawn T2, Load T1, Store T1, End T1, Load T2, Store T2, End T2,
              Join T1, Join T2, Read, Emit, Return],
             \<lparr>shared_data = 2, t1 = Terminated NULL, t2 = Terminated NULL,
                pc = Exited 0, stdout = ''2\<newline>''\<rparr>)"
    by (simp add: run_eval)
  from output_is_one_line [OF h r0 _ r1] h r0 r1 show ?thesis by simp
qed

text \<open>
  C8. The controls. No increment: the cell is 0 and prints as the line \<open>0\<close>. One
  increment from 0: the cell prints as the line \<open>1\<close>. In the program itself: if the host
  creates neither thread, every run that returns prints the line \<open>0\<close>; if it creates
  exactly one and the join on it succeeds, every run that returns prints the line \<open>1\<close>.
\<close>

theorem boundary_controls:
  "printf_line (shared_data init) = ''0\<newline>''
   \<and> printf_line (shared_data (snd (thread_function arg init))) = ''1\<newline>''
   \<and> (run h sched = Some (evs, s) \<and> pc s = Exited rc
        \<and> create_rc h T1 \<noteq> 0 \<and> create_rc h T2 \<noteq> 0
      \<longrightarrow> shared_data s = 0 \<and> stdout s = ''0\<newline>'')
   \<and> (run h sched = Some (evs, s) \<and> pc s = Exited rc
        \<and> create_rc h t = 0 \<and> join_rc h t = 0 \<and> create_rc h (other t) \<noteq> 0
      \<longrightarrow> shared_data s = 1 \<and> stdout s = ''1\<newline>'')"
proof -
  have zero: "shared_data s = 0 \<and> stdout s = ''0\<newline>''"
    if r: "run h sched = Some (evs, s)" and e: "pc s = Exited rc"
      and c: "create_rc h T1 \<noteq> 0" "create_rc h T2 \<noteq> 0"
  proof -
    from c have w: "waited h T1" "waited h T2" and sp: "spawned h T1 = 0" "spawned h T2 = 0"
      by (simp_all add: waited_def spawned_def)
    from e have i: "4 \<le> pc_index (pc s)" "6 \<le> pc_index (pc s)" by simp_all
    from cell_after_joins(2) [OF r i(1) w] sp have "unat (shared_data s) = 0" by simp
    then have "shared_data s = 0" by (rule unat_cases(1))
    with output_after_print [OF r i(2) w] show ?thesis by (simp add: printf_line_small)
  qed
  have one: "shared_data s = 1 \<and> stdout s = ''1\<newline>''"
    if r: "run h sched = Some (evs, s)" and e: "pc s = Exited rc"
      and c: "create_rc h t = 0" "join_rc h t = 0" "create_rc h (other t) \<noteq> 0"
  proof -
    from c have w: "waited h T1" "waited h T2" and sp: "spawned h T1 + spawned h T2 = 1"
      "max (spawned h T1) (spawned h T2) = 1"
      by (cases t; simp add: waited_def spawned_def)+
    from e have i: "4 \<le> pc_index (pc s)" "6 \<le> pc_index (pc s)" by simp_all
    from cell_after_joins(1,2) [OF r i(1) w] sp have "unat (shared_data s) = 1" by simp
    then have "shared_data s = 1" by (rule unat_cases(2))
    with output_after_print [OF r i(2) w] show ?thesis by (simp add: printf_line_small)
  qed
  have "printf_line (shared_data init) = ''0\<newline>''"
    "printf_line (shared_data (snd (thread_function arg init))) = ''1\<newline>''"
    by (simp_all add: init_def thread_function_def printf_line_small)
  with zero one show ?thesis by blast
qed

theorem boundary_controls_witness:
  "run no_thread_host no_worker_schedule =
     Some ([Spawn T1, Spawn T2, Join T1, Join T2, Read, Emit, Return],
           \<lparr>shared_data = 0, t1 = NoThread, t2 = NoThread,
              pc = Exited 0, stdout = ''0\<newline>''\<rparr>)
   \<and> create_rc no_thread_host T1 \<noteq> 0 \<and> create_rc no_thread_host T2 \<noteq> 0
   \<and> run spawn_fail_host one_worker_schedule =
     Some ([Spawn T1, Spawn T2, Load T1, Store T1, End T1, Join T1, Join T2, Read, Emit, Return],
           \<lparr>shared_data = 1, t1 = Terminated NULL, t2 = NoThread,
              pc = Exited 0, stdout = ''1\<newline>''\<rparr>)
   \<and> create_rc spawn_fail_host T1 = 0 \<and> join_rc spawn_fail_host T1 = 0
   \<and> create_rc spawn_fail_host (other T1) \<noteq> 0"
  using boundary_controls
    [where h = no_thread_host and sched = no_worker_schedule and rc = 0
       and evs = "[Spawn T1, Spawn T2, Join T1, Join T2, Read, Emit, Return]"
       and s = "\<lparr>shared_data = 0, t1 = NoThread, t2 = NoThread,
              pc = Exited 0, stdout = ''0\<newline>''\<rparr>"]
    boundary_controls
    [where h = spawn_fail_host and sched = one_worker_schedule and rc = 0 and t = T1
       and evs = "[Spawn T1, Spawn T2, Load T1, Store T1, End T1, Join T1, Join T2, Read,
                   Emit, Return]"
       and s = "\<lparr>shared_data = 1, t1 = Terminated NULL, t2 = NoThread,
              pc = Exited 0, stdout = ''1\<newline>''\<rparr>"]
    run_no_thread run_spawn_fail
  by (simp add: no_thread_host_def spawn_fail_host_def)

text \<open>
  C9. The worker does not depend on its argument: for any two arguments,
  \<open>thread_function\<close> returns the same result, \<open>NULL\<close>, and the same state, the cell
  one higher.
\<close>

theorem worker_ignores_argument:
  "thread_function a s = thread_function b s
   \<and> fst (thread_function a s) = NULL
   \<and> shared_data (snd (thread_function a s)) = shared_data s + 1"
proof -
  have "thread_function a s = (NULL, s\<lparr>shared_data := shared_data s + 1\<rparr>)"
    by (simp add: thread_function_def)
  moreover have "thread_function b s = (NULL, s\<lparr>shared_data := shared_data s + 1\<rparr>)"
    by (simp add: thread_function_def)
  ultimately show ?thesis by simp
qed

text \<open>
  C10. A worker changes the cell and nothing else: called as a function,
  \<open>thread_function\<close> leaves both handles, the place \<open>main\<close> is at and standard output
  as they were; so does each single step of a thread, which leaves the other thread as it
  was too; and so does any sequence of steps in which only threads move.
\<close>

theorem worker_modifies_only_cell:
  "t1 (snd (thread_function arg s)) = t1 s
   \<and> t2 (snd (thread_function arg s)) = t2 s
   \<and> pc (snd (thread_function arg s)) = pc s
   \<and> stdout (snd (thread_function arg s)) = stdout s
   \<and> (worker_step t s = Some (e, s') \<longrightarrow>
        pc s' = pc s \<and> stdout s' = stdout s \<and> thread_of (other t) s' = thread_of (other t) s)
   \<and> (exec h sched (evs, s) = Some (evs', s'') \<and> Main \<notin> set sched \<longrightarrow>
        pc s'' = pc s \<and> stdout s'' = stdout s)"
proof -
  have "worker_step t s = Some (e, s') \<longrightarrow>
        pc s' = pc s \<and> stdout s' = stdout s \<and> thread_of (other t) s' = thread_of (other t) s"
  proof
    assume w: "worker_step t s = Some (e, s')"
    from workers_only_frame [of h "[Worker t]" "([], s)" "([e], s')"] w
    have "pc s' = pc s \<and> stdout s' = stdout s" by simp
    with worker_step_event [OF w]
    show "pc s' = pc s \<and> stdout s' = stdout s \<and> thread_of (other t) s' = thread_of (other t) s"
      by simp
  qed
  moreover have "exec h sched (evs, s) = Some (evs', s'') \<and> Main \<notin> set sched \<longrightarrow>
        pc s'' = pc s \<and> stdout s'' = stdout s"
    using workers_only_frame [of h sched "(evs, s)" "(evs', s'')"] by simp
  ultimately show ?thesis by (simp add: thread_function_def)
qed

theorem worker_modifies_only_cell_witness:
  "worker_step T1 (init\<lparr>t1 := AtStore 0\<rparr>)
     = Some (Store T1, init\<lparr>t1 := AtReturn, shared_data := 1\<rparr>)
   \<and> pc (init\<lparr>t1 := AtReturn, shared_data := 1\<rparr>) = pc (init\<lparr>t1 := AtStore 0\<rparr>)
   \<and> stdout (init\<lparr>t1 := AtReturn, shared_data := 1\<rparr>) = stdout (init\<lparr>t1 := AtStore 0\<rparr>)
   \<and> t2 (init\<lparr>t1 := AtReturn, shared_data := 1\<rparr>) = t2 (init\<lparr>t1 := AtStore 0\<rparr>)
   \<and> exec ok_host [Worker T1] ([], init\<lparr>t1 := AtStore 0\<rparr>)
     = Some ([Store T1], init\<lparr>t1 := AtReturn, shared_data := 1\<rparr>)
   \<and> Main \<notin> set [Worker T1]"
  using worker_modifies_only_cell
    [where arg = NULL and s = "init\<lparr>t1 := AtStore 0\<rparr>" and t = T1 and e = "Store T1"
      and s' = "init\<lparr>t1 := AtReturn, shared_data := 1\<rparr>" and h = ok_host
      and sched = "[Worker T1]" and evs = "[]" and evs' = "[Store T1]"
      and s'' = "init\<lparr>t1 := AtReturn, shared_data := 1\<rparr>"]
  by (simp add: init_def worker_step_def exited_def)

end
